theory Spec2Isabelle
  imports Main "HOL-Library.AList" "HOL-Library.Sublist"
begin

section \<open>Python values shared by both modules\<close>

text \<open>
  Exceptions of the Python source are values: every operation that can raise returns
  \<open>py_error + 'a\<close>, with \<open>Inl\<close> carrying the exception.
\<close>

datatype py_error =
    KeyError
  | TypeError
  | OSError
  | UnboundLocalError
  | NotImplementedError string

text \<open>
  A Python \<open>dict\<close> with string keys is an association list in insertion order:
  \<open>d.get(k)\<close> is \<open>map_of d k\<close>, \<open>d[k] = v\<close> is \<open>AList.update k v d\<close> (an existing key
  keeps its position, a new one is appended), \<open>d.pop(k, None)\<close> is \<open>AList.delete k d\<close>.
\<close>

type_synonym 'v dict = "(string \<times> 'v) list"

text \<open>\<open>d.update(other)\<close>: the items of \<open>other\<close> are stored one by one, in order.\<close>

definition dict_update :: "'v dict \<Rightarrow> 'v dict \<Rightarrow> 'v dict" where
  "dict_update other d = fold (\<lambda>(k, v). AList.update k v) other d"

text \<open>
  \<open>s.replace(old, "")\<close>: every non-overlapping occurrence of \<open>old\<close> is removed, scanning
  from the left; with an empty \<open>old\<close> the string is returned as it is.
\<close>

function replace_with_empty :: "string \<Rightarrow> string \<Rightarrow> string" where
  "replace_with_empty old [] = []"
| "replace_with_empty old (c # cs) =
     (if old \<noteq> [] \<and> prefix old (c # cs)
      then replace_with_empty old (drop (length old) (c # cs))
      else c # replace_with_empty old cs)"
  by pat_completeness auto
termination
  by (relation "measure (\<lambda>(old, s). length s)") (auto simp: neq_Nil_conv)


section \<open>The glue domain (\<open>myst_nb/nb_glue/domain.py\<close>)\<close>

text \<open>
  An output of a notebook cell is a Python dict; the model keeps its \<open>"data"\<close> entry (the
  mimebundle, absent when the dict has no such key) and its \<open>"metadata"\<close> entry.
\<close>

record nb_output =
  data :: "string dict option"
  metadata :: "string dict"

text \<open>
  The outputs held by the domain are mutable objects that \<open>get\<close> may hand out without
  copying, so the model has an explicit object store: \<open>objects\<close> maps a reference to the
  output it holds and \<open>next_ref\<close> is the next unused reference. \<open>cache\<close> maps every glue
  key to the reference of its output, \<open>docmap\<close> maps a docname to the set of keys it contains;
  that set is a duplicate-free list, in the order Python would iterate it.
\<close>

record glue_state =
  cache :: "nat dict"
  docmap :: "string list dict"
  objects :: "nat \<Rightarrow> nb_output"
  next_ref :: nat

text \<open>\<open>initial_data = {"cache": {}, "docmap": {}}\<close>, on a given object store.\<close>

definition initial_data :: "(nat \<Rightarrow> nb_output) \<Rightarrow> nat \<Rightarrow> glue_state" where
  "initial_data objs n = \<lparr>cache = [], docmap = [], objects = objs, next_ref = n\<rparr>"

text \<open>\<open>key in self.cache\<close>.\<close>

definition contains :: "glue_state \<Rightarrow> string \<Rightarrow> bool" where
  "contains s key = (map_of (cache s) key \<noteq> None)"

text \<open>\<open>copy.deepcopy(output)\<close>: \<open>None\<close> stays \<open>None\<close>, an output is copied to a new object.\<close>

definition deepcopy :: "nat option \<Rightarrow> glue_state \<Rightarrow> nat option \<times> glue_state" where
  "deepcopy r s =
     (case r of
        None \<Rightarrow> (None, s)
      | Some a \<Rightarrow>
          (Some (next_ref s),
           s\<lparr>objects := (objects s)(next_ref s := objects s a),
             next_ref := Suc (next_ref s)\<rparr>))"

text \<open>
  The dict comprehension of \<open>get\<close>:
  \<open>{key.replace(GLUE_PREFIX, ""): val for key, val in output["data"].items()}\<close>.
\<close>

definition strip_prefix_keys :: "string \<Rightarrow> string dict \<Rightarrow> string dict" where
  "strip_prefix_keys GLUE_PREFIX d =
     fold (\<lambda>(key, val). AList.update (replace_with_empty GLUE_PREFIX key) val) d []"

text \<open>
  \<open>NbGlueDomain.get(key, view, replace)\<close>. The constant \<open>GLUE_PREFIX\<close> of
  \<open>myst_nb.nb_glue\<close> is a parameter. The result is the reference that the call returns
  (\<open>None\<close> for Python's \<open>None\<close>) and the state it leaves. Subscripting \<open>None\<close> raises
  \<open>TypeError\<close>; an output without \<open>"data"\<close> raises \<open>KeyError\<close>.
\<close>

definition get :: "string \<Rightarrow> string \<Rightarrow> bool \<Rightarrow> bool \<Rightarrow> glue_state
    \<Rightarrow> py_error + (nat option \<times> glue_state)" where
  "get GLUE_PREFIX key view replace s =
     (let (out, s1) = (if view then deepcopy (map_of (cache s) key) s
                       else (map_of (cache s) key, s))
      in if replace then
           (case out of
              None \<Rightarrow> Inl TypeError
            | Some a \<Rightarrow>
                (case data (objects s1 a) of
                   None \<Rightarrow> Inl KeyError
                 | Some d \<Rightarrow>
                     Inr (Some a,
                          s1\<lparr>objects := (objects s1)
                               (a := (objects s1 a)\<lparr>data := Some (strip_prefix_keys GLUE_PREFIX d)\<rparr>)\<rparr>)))
         else Inr (out, s1))"

text \<open>
  \<open>write_cache\<close>: the dict handed to \<open>json.dump\<close>,
  \<open>{d: {k: self.cache[k] for k in vs if k in self.cache} for d, vs in self.docmap.items() if vs}\<close>,
  with every reference replaced by the output it holds, as serialisation does.
\<close>

definition snapshot_keys :: "glue_state \<Rightarrow> string list \<Rightarrow> nb_output dict" where
  "snapshot_keys s vs =
     List.map_filter (\<lambda>k. map_option (\<lambda>a. (k, objects s a)) (map_of (cache s) k)) vs"

definition snapshot :: "glue_state \<Rightarrow> nb_output dict dict" where
  "snapshot s = map (\<lambda>(d, vs). (d, snapshot_keys s vs)) (filter (\<lambda>(d, vs). vs \<noteq> []) (docmap s))"

text \<open>
  \<open>write_cache(path)\<close>: the file written and its content; \<open>path = None\<close> selects
  \<open>glue_cache.json\<close> in the doctree directory.
\<close>

definition write_cache :: "string \<Rightarrow> string option \<Rightarrow> glue_state \<Rightarrow> string \<times> nb_output dict dict" where
  "write_cache doctreedir path s =
     ((case path of None \<Rightarrow> doctreedir @ ''/glue_cache.json'' | Some p \<Rightarrow> p), snapshot s)"

text \<open>
  \<open>existing_keys = {v: k for k, vs in self.docmap.items() for v in vs}\<close>, the argument
  \<open>add_notebook\<close> passes to \<open>find_all_keys\<close>.
\<close>

definition existing_keys :: "glue_state \<Rightarrow> string dict" where
  "existing_keys s =
     fold (\<lambda>(k, vs) acc. fold (\<lambda>v. AList.update v k) vs acc) (docmap s) []"

text \<open>
  \<open>add_notebook(ntbk, docname)\<close>. \<open>find_all_keys\<close> of \<open>myst_nb.nb_glue.utils\<close> is a
  parameter: from the notebook, the existing keys and the path it returns a dict from
  glue key to output object. \<open>set(new_keys)\<close> is the list of its keys.
\<close>

definition add_notebook :: "('nb \<Rightarrow> string dict \<Rightarrow> string \<Rightarrow> nat dict) \<Rightarrow> 'nb \<Rightarrow> string
    \<Rightarrow> glue_state \<Rightarrow> glue_state" where
  "add_notebook find_all_keys ntbk docname s =
     (let new_keys = find_all_keys ntbk (existing_keys s) docname
      in s\<lparr>docmap := AList.update docname (remdups (map fst new_keys)) (docmap s),
           cache := dict_update new_keys (cache s)\<rparr>)"

text \<open>
  \<open>clear_doc(docname)\<close>: \<open>self.docmap.get(docname, [])\<close> is iterated, each key popped
  from the cache, then the docname is popped from the docmap.
\<close>

definition clear_doc :: "string \<Rightarrow> glue_state \<Rightarrow> glue_state" where
  "clear_doc docname s =
     (let keys = (case map_of (docmap s) docname of None \<Rightarrow> [] | Some vs \<Rightarrow> vs)
      in s\<lparr>cache := fold (\<lambda>key c. AList.delete key c) keys (cache s),
           docmap := AList.delete docname (docmap s)\<rparr>)"

text \<open>
  \<open>merge_domaindata(docnames, otherdata)\<close>: the body is a single \<open>raise\<close>;
  \<open>cls\<close> is the text of \<open>self.__class__\<close>.
\<close>

definition merge_domaindata :: "string \<Rightarrow> string list \<Rightarrow> 'd \<Rightarrow> glue_state
    \<Rightarrow> py_error + glue_state" where
  "merge_domaindata cls docnames otherdata s =
     Inl (NotImplementedError
       (''merge_domaindata must be implemented in '' @ cls @ '' to be able to do parallel builds!''))"


section \<open>The execution cache (\<open>myst_nb/cache.py\<close>)\<close>

subsection \<open>Strings\<close>

text \<open>\<open>x in s\<close> for strings: \<open>x\<close> occurs in \<open>s\<close> as a contiguous substring.\<close>

primrec str_in :: "string \<Rightarrow> string \<Rightarrow> bool" where
  "str_in x [] = (x = [])"
| "str_in x (c # cs) = (prefix x (c # cs) \<or> str_in x cs)"

text \<open>
  \<open>s.rfind(c)\<close> for a one-character \<open>c\<close>: the highest index at which \<open>c\<close> occurs, or
  \<open>-1\<close>. The scan keeps the index \<open>i\<close> of the current character and the last hit.
\<close>

primrec rfind_from :: "char \<Rightarrow> string \<Rightarrow> int \<Rightarrow> int \<Rightarrow> int" where
  "rfind_from c [] i found = found"
| "rfind_from c (x # xs) i found = rfind_from c xs (i + 1) (if x = c then i else found)"

definition rfind :: "string \<Rightarrow> char \<Rightarrow> int" where
  "rfind s c = rfind_from c s 0 (- 1)"

text \<open>
  Slices. A bound of a Python slice is first normalised: a negative bound counts from the
  end, and every bound is clipped to the string. \<open>s[a:]\<close> and \<open>s[a:b]\<close> follow.
\<close>

definition slice_bound :: "string \<Rightarrow> int \<Rightarrow> nat" where
  "slice_bound s i =
     (if i < 0 then nat (max (int (length s) + i) 0) else nat (min i (int (length s))))"

definition slice_from :: "string \<Rightarrow> int \<Rightarrow> string" where
  "slice_from s a = drop (slice_bound s a) s"

definition slice :: "string \<Rightarrow> int \<Rightarrow> int \<Rightarrow> string" where
  "slice s a b = take (slice_bound s b - slice_bound s a) (drop (slice_bound s a) s)"

subsection \<open>Notebooks, log records and the cache engine\<close>

text \<open>
  A notebook is the list of its cells; a cell has a type and, when it is a code cell, a
  list of outputs.
\<close>

record cell =
  cell_type :: string
  outputs :: "nb_output list"

type_synonym notebook = "cell list"

datatype log_record = LogError string | LogInfo string

text \<open>The two configuration values \<open>stage_and_execute\<close> reads.\<close>

record config =
  jupyter_notebook_force_run :: bool
  execution_excludepatterns :: "string list"

text \<open>
  The build environment: \<open>doc2path\<close>, the files that can be opened and read as notebooks
  (\<open>None\<close> when \<open>open\<close> or \<open>nbf.read\<close> raises), and whether \<open>jupyter_cache.cache.main\<close>
  can be imported.
\<close>

record build_env =
  doc2path :: "string \<Rightarrow> string"
  read_notebook :: "string \<Rightarrow> notebook option"
  jupyter_cache_importable :: bool

text \<open>
  The cache engine (\<open>jupyter_cache\<close>) is an external collaborator. The requests that
  change it are parameters over an engine state \<open>'cb\<close>; each returns its result, or the
  exception it raises, together with the engine state it leaves. \<open>load_executor\<close>
  returns the text of the \<open>ImportError\<close> when the executor cannot be loaded.
\<close>

record ('cb, 'r) cache_engine =
  stage_notebook_file :: "string \<Rightarrow> 'cb \<Rightarrow> (py_error + nat) \<times> 'cb"
  cache_notebook_file :: "string \<Rightarrow> bool \<Rightarrow> 'cb \<Rightarrow> py_error option \<times> 'cb"
  load_executor :: "'cb \<Rightarrow> string option"
  run_and_cache :: "nat list option \<Rightarrow> 'cb \<Rightarrow> (py_error + 'r) \<times> 'cb"

text \<open>
  The calls made to the engine, in the order they are made; a staging call is recorded
  with what it returned (the \<open>pk\<close> of the stage record) or raised.
\<close>

datatype engine_call =
    StageNotebookFile string "py_error + nat"
  | CacheNotebookFile string bool
  | RunAndCache "nat list option"

text \<open>
  The state of one call of \<open>stage_and_execute\<close>: the local \<open>pk_list\<close>, the engine, the
  calls made so far and the log. An exception leaves this state as it is at the raise,
  so every function returns the exception (if any) next to the state.
\<close>

record 'cb pass_state =
  pk_list :: "nat list option"
  cache_base :: 'cb
  calls :: "engine_call list"
  log :: "log_record list"

subsection \<open>\<open>stage_and_execute\<close>\<close>

text \<open>\<open>exclude_file = [x in nb for x in env.env.config["execution_excludepatterns"]]\<close>.\<close>

definition exclude_file :: "config \<Rightarrow> string \<Rightarrow> bool list" where
  "exclude_file cfg nb = map (\<lambda>x. str_in x nb) (execution_excludepatterns cfg)"

text \<open>
  \<open>all(len(cell.outputs) != 0 for cell in ntbk.cells if cell["cell_type"] == "code")\<close>.
\<close>

definition has_outputs :: "notebook \<Rightarrow> bool" where
  "has_outputs ntbk =
     list_all (\<lambda>cell. length (outputs cell) \<noteq> 0) (filter (\<lambda>cell. cell_type cell = ''code'') ntbk)"

text \<open>The body of the \<open>for nb in nb_list\<close> loop.\<close>

definition stage_one :: "('cb, 'r) cache_engine \<Rightarrow> build_env \<Rightarrow> config \<Rightarrow> string
    \<Rightarrow> 'cb pass_state \<Rightarrow> py_error option \<times> 'cb pass_state" where
  "stage_one eng env cfg nb st =
     (if True \<in> set (exclude_file cfg nb) then (None, st)
      else
        let source_path = doc2path env nb in
        case read_notebook env source_path of
          None \<Rightarrow> (Some OSError, st)
        | Some ntbk \<Rightarrow>
            if jupyter_notebook_force_run cfg \<or> \<not> has_outputs ntbk then
              let pks = (case pk_list st of None \<Rightarrow> [] | Some l \<Rightarrow> l);
                  (res, cb) = stage_notebook_file eng source_path (cache_base st);
                  st1 = st\<lparr>pk_list := Some pks, cache_base := cb,
                           calls := calls st @ [StageNotebookFile source_path res]\<rparr>
              in (case res of
                    Inl e \<Rightarrow> (Some e, st1)
                  | Inr pk \<Rightarrow> (None, st1\<lparr>pk_list := Some (pks @ [pk])\<rparr>))
            else
              let (err, st1) =
                    (if has_outputs ntbk then
                       let (e, cb) = cache_notebook_file eng source_path True (cache_base st)
                       in (e, st\<lparr>cache_base := cb,
                                 calls := calls st @ [CacheNotebookFile source_path True]\<rparr>)
                     else (None, st))
              in (case err of
                    Some e \<Rightarrow> (Some e, st1)
                  | None \<Rightarrow>
                      (None, st1\<lparr>log := log st1 @ [LogError
                         (''Will not run notebook with pre-populated outputs or no output cells, will directly cache: ''
                          @ source_path)]\<rparr>)))"

text \<open>The loop: the documents in iteration order; an exception ends it.\<close>

fun stage_loop :: "('cb, 'r) cache_engine \<Rightarrow> build_env \<Rightarrow> config \<Rightarrow> string list
    \<Rightarrow> 'cb pass_state \<Rightarrow> py_error option \<times> 'cb pass_state" where
  "stage_loop eng env cfg [] st = (None, st)"
| "stage_loop eng env cfg (nb # nbs) st =
     (case stage_one eng env cfg nb st of
        (Some e, st1) \<Rightarrow> (Some e, st1)
      | (None, st1) \<Rightarrow> stage_loop eng env cfg nbs st1)"

text \<open>
  \<open>execute_staged_nb(cache_base, pk_list)\<close>. The value returned is \<open>1\<close> when the executor
  cannot be loaded and the engine's result otherwise. The filter handed to the engine is
  \<open>pk_list or None\<close>.
\<close>

datatype 'r exec_return = ReturnOne | ReturnResult 'r

definition or_None :: "nat list option \<Rightarrow> nat list option" where
  "or_None pks = (case pks of None \<Rightarrow> None | Some [] \<Rightarrow> None | Some (x # xs) \<Rightarrow> Some (x # xs))"

definition execute_staged_nb :: "('cb, 'r) cache_engine \<Rightarrow> 'cb pass_state
    \<Rightarrow> (py_error + 'r exec_return) \<times> 'cb pass_state" where
  "execute_staged_nb eng st =
     (case load_executor eng (cache_base st) of
        Some error \<Rightarrow> (Inr ReturnOne, st\<lparr>log := log st @ [LogError error]\<rparr>)
      | None \<Rightarrow>
          let (res, cb) = run_and_cache eng (or_None (pk_list st)) (cache_base st);
              st1 = st\<lparr>cache_base := cb, calls := calls st @ [RunAndCache (or_None (pk_list st))]\<rparr>
          in (case res of Inl e \<Rightarrow> (Inl e, st1) | Inr result \<Rightarrow> (Inr (ReturnResult result), st1)))"

text \<open>
  \<open>stage_and_execute(env, nb_list, path_cache)\<close>. \<open>path_cache\<close> is the truth value of the
  setting and \<open>cb\<close> the engine that \<open>get_cache(path_cache)\<close> opens. The result of
  \<open>execute_staged_nb\<close> is dropped, as in the source.
\<close>

definition stage_and_execute :: "('cb, 'r) cache_engine \<Rightarrow> build_env \<Rightarrow> config \<Rightarrow> string list
    \<Rightarrow> bool \<Rightarrow> 'cb \<Rightarrow> log_record list \<Rightarrow> py_error option \<times> 'cb pass_state" where
  "stage_and_execute eng env cfg nb_list path_cache cb lg =
     (let st0 = \<lparr>pk_list = None, cache_base = cb, calls = [], log = lg\<rparr> in
      if path_cache then
        let st1 = (if jupyter_cache_importable env then st0
                   else st0\<lparr>log := log st0 @ [LogError
                     ''Using caching functionality requires that jupyter_cache is uninstalled. Install it first.'']\<rparr>)
        in (case stage_loop eng env cfg nb_list st1 of
              (Some e, st2) \<Rightarrow> (Some e, st2)
            | (None, st2) \<Rightarrow>
                (case execute_staged_nb eng st2 of
                   (Inl e, st3) \<Rightarrow> (Some e, st3)
                 | (Inr r, st3) \<Rightarrow> (None, st3)))
      else (None, st0))"

subsection \<open>\<open>add_notebook_outputs\<close>\<close>

text \<open>
  The records of the cache database: a cache record has a primary key and a creation time
  (a \<open>datetime\<close>, here a number that grows with time); a stage record has a primary key
  and a traceback, which is \<open>None\<close> or a string.
\<close>

record nb_cache_record =
  pk :: nat
  created :: int

record nb_stage_record =
  stage_pk :: nat
  traceback :: "string option"

text \<open>
  The lookups \<open>add_notebook_outputs\<close> makes in the cache that \<open>get_cache(path_cache)\<close>
  opens. They do not change the cache, so they are functions of their arguments; each
  returns its result or the exception it raises.
\<close>

record cache_lookups =
  records_from_uri :: "string \<Rightarrow> py_error + nb_cache_record list"
  get_cache_record :: "nat \<Rightarrow> py_error + nb_cache_record"
  merge_match_into_notebook :: "notebook \<Rightarrow> py_error + (nat \<times> notebook)"
  get_staged_record :: "string \<Rightarrow> py_error + nb_stage_record"

text \<open>
  The file system as far as the function writes it: the directories that exist and the
  text files with their content. \<open>ensuredir\<close> creates a directory, \<open>open(p, "w")\<close> followed
  by \<open>write\<close> sets the content of \<open>p\<close>.
\<close>

record file_system =
  dirs :: "string set"
  files :: "string \<Rightarrow> string option"

text \<open>
  \<open>_relative_file_path(file_path)\<close>; \<open>currentdir\<close> is the value of \<open>os.getcwd()\<close>.
\<close>

definition relative_file_path :: "string \<Rightarrow> string \<Rightarrow> string" where
  "relative_file_path currentdir file_path =
     (let dir_index = rfind currentdir CHR ''/'' in slice_from file_path (dir_index + 1))"

text \<open>
  The selection loop over \<open>cache_list\<close>. The accumulator is the pair of the locals
  \<open>latest\<close> and \<open>latest_pk\<close>, \<open>None\<close> while \<open>latest is None\<close>.
\<close>

fun latest_loop :: "(int \<times> nat) option \<Rightarrow> nb_cache_record list \<Rightarrow> (int \<times> nat) option" where
  "latest_loop acc [] = acc"
| "latest_loop acc (item # items) =
     latest_loop
       (case acc of
          None \<Rightarrow> Some (created item, pk item)
        | Some (latest, latest_pk) \<Rightarrow>
            if latest > created item then Some (created item, pk item) else acc)
       items"

text \<open>
  The \<open>try\<close> block with its \<open>except KeyError\<close>: the cache record found (or \<open>None\<close>), or the
  exception that leaves the function, and the log records written.
\<close>

definition find_cache_record :: "cache_lookups \<Rightarrow> string \<Rightarrow> string
    \<Rightarrow> (py_error + nb_cache_record option) \<times> log_record list" where
  "find_cache_record db file_path r_file_path =
     (let not_found = (Inr None, [LogError
            (''Couldn'' @ [CHR 0x27] @ ''t find cache key for notebook file '' @ r_file_path
             @ ''. Outputs will not be inserted'')])
      in case records_from_uri db file_path of
           Inl e \<Rightarrow> (if e = KeyError then not_found else (Inl e, []))
         | Inr cache_list \<Rightarrow>
             if length cache_list \<noteq> 0 then
               (case latest_loop None cache_list of
                  None \<Rightarrow> (Inl UnboundLocalError, [])
                | Some (latest, latest_pk) \<Rightarrow>
                    (case get_cache_record db latest_pk of
                       Inl e \<Rightarrow> (if e = KeyError then not_found else (Inl e, []))
                     | Inr cache_record \<Rightarrow> (Inr (Some cache_record), [])))
             else (Inr None, []))"

text \<open>
  \<open>file_name = r_file_path[r_file_path.rfind("/") + 1 : r_file_path.rfind(".")]\<close>.
\<close>

definition report_file_name :: "string \<Rightarrow> string" where
  "report_file_name r_file_path =
     slice r_file_path (rfind r_file_path CHR ''/'' + 1) (rfind r_file_path CHR ''.'')"

text \<open>Truth value of \<open>stage_record.traceback\<close>: a string that is not empty.\<close>

definition truthy :: "string option \<Rightarrow> bool" where
  "truthy t = (case t of None \<Rightarrow> False | Some x \<Rightarrow> x \<noteq> [])"

text \<open>
  \<open>add_notebook_outputs(file_path, ntbk, path_cache, dest_path)\<close>. \<open>path_cache\<close> is the
  truth value of the setting, \<open>db\<close> the cache it opens, \<open>currentdir\<close> the working
  directory. The result is the notebook returned, or the exception raised, with the file
  system and the log as the call leaves them.
\<close>

definition add_notebook_outputs :: "cache_lookups \<Rightarrow> string \<Rightarrow> string \<Rightarrow> notebook \<Rightarrow> bool
    \<Rightarrow> string \<Rightarrow> file_system \<Rightarrow> log_record list
    \<Rightarrow> (py_error + notebook) \<times> file_system \<times> log_record list" where
  "add_notebook_outputs db currentdir file_path ntbk path_cache dest_path fs lg =
     (let reports_dir = dest_path @ ''/reports'' in
      if path_cache then
        let r_file_path = relative_file_path currentdir file_path in
        case find_cache_record db file_path r_file_path of
          (Inl e, msgs) \<Rightarrow> (Inl e, fs, lg @ msgs)
        | (Inr (Some cache_record), msgs) \<Rightarrow>
            (case merge_match_into_notebook db ntbk of
               Inl e \<Rightarrow> (Inl e, fs, lg @ msgs)
             | Inr (matched, merged) \<Rightarrow> (Inr merged, fs, lg @ msgs))
        | (Inr None, msgs) \<Rightarrow>
            (case get_staged_record db r_file_path of
               Inl e \<Rightarrow> (if e = KeyError then (Inr ntbk, fs, lg @ msgs) else (Inl e, fs, lg @ msgs))
             | Inr stage_record \<Rightarrow>
                 if truthy (traceback stage_record) then
                   let file_name = report_file_name r_file_path;
                       full_path = reports_dir @ ''/'' @ file_name @ ''.log''
                   in (Inr ntbk,
                       fs\<lparr>dirs := insert reports_dir (dirs fs),
                          files := (files fs)(full_path := traceback stage_record)\<rparr>,
                       lg @ msgs @ [LogInfo (''Execution traceback for '' @ file_name
                                            @ '' is saved in '' @ full_path)])
                 else (Inr ntbk, fs, lg @ msgs))
      else (Inr ntbk, fs, lg))"


section \<open>Notions used in the properties\<close>

subsection \<open>Glue domain\<close>

text \<open>The keys currently attributed to a document: \<open>self.docmap.get(docname, [])\<close>.\<close>

definition owned_keys :: "glue_state \<Rightarrow> string \<Rightarrow> string list" where
  "owned_keys s docname = (case map_of (docmap s) docname of None \<Rightarrow> [] | Some vs \<Rightarrow> vs)"

text \<open>
  Modelled from the spec: \<open>find_all_keys\<close> of \<open>myst_nb/nb_glue/utils.py\<close>, which is not
  among the sources. The spec describes it as the key-extraction routine that works over the
  existing keys to avoid collisions across other already-known keys: it returns no key that
  is among the existing keys it is given.
\<close>

definition avoids_existing :: "('nb \<Rightarrow> string dict \<Rightarrow> string \<Rightarrow> nat dict) \<Rightarrow> bool" where
  "avoids_existing find_all_keys \<longleftrightarrow>
     (\<forall>ntbk existing path. fst ` set (find_all_keys ntbk existing path) \<inter> fst ` set existing = {})"

text \<open>
  The stores the domain can be in: the initial data, and what \<open>add_notebook\<close>, \<open>clear_doc\<close>
  and \<open>get\<close> make of such a store.
\<close>

inductive reachable :: "('nb \<Rightarrow> string dict \<Rightarrow> string \<Rightarrow> nat dict) \<Rightarrow> string \<Rightarrow> glue_state \<Rightarrow> bool"
  for find_all_keys :: "'nb \<Rightarrow> string dict \<Rightarrow> string \<Rightarrow> nat dict" and GLUE_PREFIX :: string
where
  initial: "reachable find_all_keys GLUE_PREFIX (initial_data objs n)"
| added: "reachable find_all_keys GLUE_PREFIX s \<Longrightarrow>
     reachable find_all_keys GLUE_PREFIX (add_notebook find_all_keys ntbk docname s)"
| cleared: "reachable find_all_keys GLUE_PREFIX s \<Longrightarrow>
     reachable find_all_keys GLUE_PREFIX (clear_doc docname s)"
| looked_up: "reachable find_all_keys GLUE_PREFIX s \<Longrightarrow>
     get GLUE_PREFIX key view replace s = Inr (r, s') \<Longrightarrow>
     reachable find_all_keys GLUE_PREFIX s'"

text \<open>
  What every such store satisfies: the docnames of the docmap are distinct, every key that
  a document lists is in the cache, and no key is listed by two documents.
\<close>

definition store_invariant :: "glue_state \<Rightarrow> bool" where
  "store_invariant s \<longleftrightarrow>
     distinct (map fst (docmap s)) \<and>
     (\<forall>d vs. map_of (docmap s) d = Some vs \<longrightarrow>
        (\<forall>k\<in>set vs. map_of (cache s) k \<noteq> None) \<and>
        (\<forall>d' vs'. d' \<noteq> d \<and> map_of (docmap s) d' = Some vs' \<longrightarrow> set vs \<inter> set vs' = {}))"

text \<open>
  For closed instances: an extraction routine that takes the notebook as the list of its
  glue entries (key and reference of the output) and skips the entries whose key is among
  the existing keys; outputs whose mimebundle keys carry the prefix
  \<open>application/papermill.record/\<close>; and the store after \<open>add_notebook\<close> for \<open>docA\<close>, whose
  notebook glues \<open>x\<close>, and then for \<open>docB\<close>, whose notebook glues \<open>x\<close> and \<open>y\<close>.
\<close>

definition sample_find_all_keys :: "nat dict \<Rightarrow> string dict \<Rightarrow> string \<Rightarrow> nat dict" where
  "sample_find_all_keys ntbk existing path = filter (\<lambda>(key, a). map_of existing key = None) ntbk"

definition sample_objects :: "nat \<Rightarrow> nb_output" where
  "sample_objects a =
     \<lparr>data = Some [(''application/papermill.record/text/plain'', if a = 0 then ''1'' else ''2'')],
      metadata = []\<rparr>"

definition sample_state :: glue_state where
  "sample_state =
     add_notebook sample_find_all_keys [(''x'', 1), (''y'', 2)] ''docB''
       (add_notebook sample_find_all_keys [(''x'', 0)] ''docA''
          (initial_data sample_objects 3))"

subsection \<open>Execution cache\<close>

text \<open>
  The staged batch that a sequence of engine calls accounts for: \<open>None\<close> when no staging
  call was made, otherwise the keys the staging calls returned, in order.
\<close>

fun is_stage :: "engine_call \<Rightarrow> bool" where
  "is_stage (StageNotebookFile p r) = True"
| "is_stage c = False"

fun returned_pk :: "engine_call \<Rightarrow> nat list" where
  "returned_pk (StageNotebookFile p (Inr k)) = [k]"
| "returned_pk c = []"

definition batch_of :: "engine_call list \<Rightarrow> nat list option" where
  "batch_of cs = (if list_ex is_stage cs then Some (concat (map returned_pk cs)) else None)"

text \<open>
  The decision of the loop body for a file that can be read: it is staged when a run is
  forced or some code cell has no output.
\<close>

definition must_stage :: "build_env \<Rightarrow> config \<Rightarrow> string \<Rightarrow> bool" where
  "must_stage env cfg p =
     (case read_notebook env p of
        None \<Rightarrow> False
      | Some ntbk \<Rightarrow> jupyter_notebook_force_run cfg \<or> \<not> has_outputs ntbk)"

text \<open>An engine call that the loop body makes for the document \<open>nb\<close>.\<close>

definition decided :: "build_env \<Rightarrow> config \<Rightarrow> string \<Rightarrow> engine_call \<Rightarrow> bool" where
  "decided env cfg nb c \<longleftrightarrow>
     True \<notin> set (exclude_file cfg nb) \<and>
     (if must_stage env cfg (doc2path env nb)
      then \<exists>r. c = StageNotebookFile (doc2path env nb) r
      else c = CacheNotebookFile (doc2path env nb) True)"

text \<open>
  An engine for closed instances, with the behaviour the engine interface describes:
  staging a path returns the key of its stage record, creating the record when there is
  none; caching a file records its path; a run executes the staged records that the
  filter names, and every staged record when the filter is \<open>None\<close>.
\<close>

record sample_cache =
  staged :: "(string \<times> nat) list"
  cached :: "string list"
  executed :: "nat list"

definition sample_engine :: "(sample_cache, nat list) cache_engine" where
  "sample_engine =
     \<lparr>stage_notebook_file = (\<lambda>path c.
          case map_of (staged c) path of
            Some k \<Rightarrow> (Inr k, c)
          | None \<Rightarrow> (let k = Suc (fold max (map snd (staged c)) 0)
                     in (Inr k, c\<lparr>staged := staged c @ [(path, k)]\<rparr>))),
       cache_notebook_file = (\<lambda>path overwrite c.
          (None, c\<lparr>cached := path # removeAll path (cached c)\<rparr>)),
       load_executor = (\<lambda>c. None),
       run_and_cache = (\<lambda>filter_pks c.
          let pks = filter (\<lambda>k. case filter_pks of None \<Rightarrow> True | Some l \<Rightarrow> k \<in> set l)
                      (map snd (staged c))
          in (Inr pks, c\<lparr>executed := executed c @ pks\<rparr>))\<rparr>"

text \<open>
  A source directory with two notebooks: \<open>done\<close> has an output in its only code cell,
  \<open>todo\<close> has none. Documents whose name contains \<open>index\<close> are excluded. The cache
  holds one stage record from an earlier pass.
\<close>

definition sample_env :: build_env where
  "sample_env =
     \<lparr>doc2path = (\<lambda>nb. ''/src/'' @ nb @ ''.ipynb''),
      read_notebook = (\<lambda>p.
        if p = ''/src/done.ipynb''
          then Some [\<lparr>cell_type = ''markdown'', outputs = []\<rparr>,
                     \<lparr>cell_type = ''code'',
                      outputs = [\<lparr>data = Some [(''text/plain'', ''1'')], metadata = []\<rparr>]\<rparr>]
        else if p = ''/src/todo.ipynb''
          then Some [\<lparr>cell_type = ''code'', outputs = []\<rparr>]
        else None),
      jupyter_cache_importable = True\<rparr>"

definition sample_config :: config where
  "sample_config = \<lparr>jupyter_notebook_force_run = False, execution_excludepatterns = [''index'']\<rparr>"

definition old_cache :: sample_cache where
  "old_cache = \<lparr>staged = [(''/src/old.ipynb'', 7)], cached = [], executed = []\<rparr>"

text \<open>
  The cache holds no record for a file: the list of its records is empty, or a lookup of
  the \<open>try\<close> block raises \<open>KeyError\<close>.
\<close>

definition no_cache_record :: "cache_lookups \<Rightarrow> string \<Rightarrow> bool" where
  "no_cache_record db file_path =
     (case records_from_uri db file_path of
        Inl e \<Rightarrow> e = KeyError
      | Inr cache_list \<Rightarrow>
          cache_list = [] \<or>
          (case latest_loop None cache_list of
             None \<Rightarrow> False
           | Some (latest, latest_pk) \<Rightarrow> get_cache_record db latest_pk = Inl KeyError))"

text \<open>
  Caches for closed instances. \<open>no_records\<close> is the cache of a first build. In
  \<open>staged_failure uri k\<close> the only record is the stage record with key \<open>k\<close>, filed under
  \<open>uri\<close>, whose execution failed. \<open>two_records\<close> holds two cache records for every file,
  the one with key 2 created after the one with key 1.
\<close>

definition no_records :: cache_lookups where
  "no_records =
     \<lparr>records_from_uri = (\<lambda>uri. Inr []),
      get_cache_record = (\<lambda>k. Inl KeyError),
      merge_match_into_notebook = (\<lambda>nb. Inl KeyError),
      get_staged_record = (\<lambda>uri. Inl KeyError)\<rparr>"

definition staged_failure :: "string \<Rightarrow> nat \<Rightarrow> cache_lookups" where
  "staged_failure uri k =
     \<lparr>records_from_uri = (\<lambda>u. Inr []),
      get_cache_record = (\<lambda>k. Inl KeyError),
      merge_match_into_notebook = (\<lambda>nb. Inl KeyError),
      get_staged_record = (\<lambda>u.
        if u = uri then Inr \<lparr>stage_pk = k, traceback = Some ''ZeroDivisionError''\<rparr>
        else Inl KeyError)\<rparr>"

definition two_records :: cache_lookups where
  "two_records =
     \<lparr>records_from_uri = (\<lambda>uri. Inr [\<lparr>pk = 1, created = 10\<rparr>, \<lparr>pk = 2, created = 20\<rparr>]),
      get_cache_record = (\<lambda>k.
        if k = 1 then Inr \<lparr>pk = 1, created = 10\<rparr>
        else if k = 2 then Inr \<lparr>pk = 2, created = 20\<rparr>
        else Inl KeyError),
      merge_match_into_notebook = (\<lambda>nb. Inr (2, nb)),
      get_staged_record = (\<lambda>uri. Inl KeyError)\<rparr>"

definition empty_fs :: file_system where
  "empty_fs = \<lparr>dirs = {}, files = (\<lambda>p. None)\<rparr>"


section \<open>Properties of the glue domain\<close>

lemma map_of_fold_delete:
  "map_of (fold (\<lambda>key c. AList.delete key c) ks c) k = (if k \<in> set ks then None else map_of c k)"
  by (induction ks arbitrary: c) (auto simp: AList.delete_conv')

lemma snapshot_keys_mem:
  "(k, v) \<in> set (snapshot_keys s vs) \<longleftrightarrow>
     k \<in> set vs \<and> (\<exists>a. map_of (cache s) k = Some a \<and> objects s a = v)"
  unfolding snapshot_keys_def
  by (induction vs) (auto simp: List.map_filter_simps split: option.splits)

lemma fold_update_dom:
  "fst ` set (fold (\<lambda>v. AList.update v k) vs acc) = set vs \<union> fst ` set acc"
  by (induction vs arbitrary: acc) (auto simp: AList.dom_update)

lemma existing_keys_fold_dom:
  "fst ` set (fold (\<lambda>(k, vs) acc. fold (\<lambda>v. AList.update v k) vs acc) dm acc)
     = (\<Union>(d, vs)\<in>set dm. set vs) \<union> fst ` set acc"
proof (induction dm arbitrary: acc)
  case Nil
  then show ?case by simp
next
  case (Cons p dm)
  obtain k vs where p: "p = (k, vs)" by (cases p)
  show ?case
    unfolding p by (simp add: Cons.IH fold_update_dom Un_assoc Un_left_commute)
qed

lemma listed_in_existing:
  assumes "map_of (docmap s) d = Some vs"
  shows "set vs \<subseteq> fst ` set (existing_keys s)"
proof -
  from assms have "(d, vs) \<in> set (docmap s)" by (rule map_of_SomeD)
  then show ?thesis
    unfolding existing_keys_def existing_keys_fold_dom by auto
qed

lemma dict_update_dom:
  "map_of (dict_update new c) k = None \<longleftrightarrow> k \<notin> fst ` set new \<and> map_of c k = None"
  unfolding dict_update_def
  by (induction new arbitrary: c) (auto simp: AList.update_conv' split: if_splits)

lemma owned_keysD:
  "k \<in> set (owned_keys s d) \<Longrightarrow> \<exists>vs. map_of (docmap s) d = Some vs \<and> k \<in> set vs"
  by (cases "map_of (docmap s) d") (auto simp: owned_keys_def)

lemma invariant_initial: "store_invariant (initial_data objs n)"
  by (simp add: store_invariant_def initial_data_def)

lemma invariant_add:
  assumes inv: "store_invariant s"
    and new: "fst ` set (find_all_keys ntbk (existing_keys s) d) \<inter> fst ` set (existing_keys s) = {}"
  shows "store_invariant (add_notebook find_all_keys ntbk d s)"
proof -
  define nk where "nk = find_all_keys ntbk (existing_keys s) d"
  define s' where "s' = add_notebook find_all_keys ntbk d s"
  have dm: "map_of (docmap s') x = (if x = d then Some (remdups (map fst nk)) else map_of (docmap s) x)"
    for x
    by (simp add: s'_def nk_def add_notebook_def Let_def AList.update_conv')
  have ca: "map_of (cache s') k = None \<longleftrightarrow> k \<notin> fst ` set nk \<and> map_of (cache s) k = None" for k
    by (simp add: s'_def nk_def add_notebook_def Let_def dict_update_dom)
  have di: "distinct (map fst (docmap s'))"
    using inv by (simp add: s'_def add_notebook_def Let_def store_invariant_def AList.distinct_update)
  have old: "set vs \<inter> fst ` set nk = {}" if "map_of (docmap s) x = Some vs" for x vs
    using listed_in_existing [OF that] new unfolding nk_def by auto
  have "(\<forall>k\<in>set vs. map_of (cache s') k \<noteq> None) \<and>
        (\<forall>d' vs'. d' \<noteq> x \<and> map_of (docmap s') d' = Some vs' \<longrightarrow> set vs \<inter> set vs' = {})"
    if x: "map_of (docmap s') x = Some vs" for x vs
  proof (cases "x = d")
    case True
    with x have "vs = remdups (map fst nk)" by (simp add: dm)
    then have vs: "set vs = fst ` set nk" by simp
    have dj: "set vs \<inter> set vs' = {}" if "d' \<noteq> x" "map_of (docmap s') d' = Some vs'" for d' vs'
    proof -
      from that True have "map_of (docmap s) d' = Some vs'" by (simp add: dm)
      from old [OF this] vs show ?thesis by auto
    qed
    have c: "\<forall>k\<in>set vs. map_of (cache s') k \<noteq> None"
      using vs by (simp add: ca)
    from c dj show ?thesis by blast
  next
    case False
    with x have xo: "map_of (docmap s) x = Some vs" by (simp add: dm)
    with inv have c: "\<forall>k\<in>set vs. map_of (cache s) k \<noteq> None"
      by (simp add: store_invariant_def)
    have dj: "set vs \<inter> set vs' = {}" if "d' \<noteq> x" "map_of (docmap s') d' = Some vs'" for d' vs'
    proof (cases "d' = d")
      case True
      with that have "vs' = remdups (map fst nk)" by (simp add: dm)
      then have "set vs' = fst ` set nk" by simp
      with old [OF xo] show ?thesis by simp
    next
      case d': False
      with that have "map_of (docmap s) d' = Some vs'" by (simp add: dm)
      with inv xo that(1) show ?thesis unfolding store_invariant_def by blast
    qed
    from c have c': "\<forall>k\<in>set vs. map_of (cache s') k \<noteq> None"
      by (simp add: ca)
    from c' dj show ?thesis by blast
  qed
  with di show ?thesis
    unfolding s'_def [symmetric] store_invariant_def by blast
qed

lemma invariant_clear:
  assumes inv: "store_invariant s"
  shows "store_invariant (clear_doc d s)"
proof -
  define s' where "s' = clear_doc d s"
  have dm: "map_of (docmap s') x = (if x = d then None else map_of (docmap s) x)" for x
    by (simp add: s'_def clear_doc_def Let_def AList.delete_conv')
  have ca: "map_of (cache s') k = (if k \<in> set (owned_keys s d) then None else map_of (cache s) k)"
    for k
    by (simp add: s'_def clear_doc_def owned_keys_def Let_def map_of_fold_delete)
  have di: "distinct (map fst (docmap s'))"
    using inv by (simp add: s'_def clear_doc_def Let_def store_invariant_def AList.distinct_delete)
  have "(\<forall>k\<in>set vs. map_of (cache s') k \<noteq> None) \<and>
        (\<forall>d' vs'. d' \<noteq> x \<and> map_of (docmap s') d' = Some vs' \<longrightarrow> set vs \<inter> set vs' = {})"
    if x: "map_of (docmap s') x = Some vs" for x vs
  proof -
    from x have nd: "x \<noteq> d" and xo: "map_of (docmap s) x = Some vs"
      by (auto simp: dm split: if_splits)
    have dis: "set vs \<inter> set (owned_keys s d) = {}"
    proof (cases "map_of (docmap s) d")
      case None
      then show ?thesis by (simp add: owned_keys_def)
    next
      case (Some ws)
      with inv xo nd have "set vs \<inter> set ws = {}" unfolding store_invariant_def by blast
      with Some show ?thesis by (simp add: owned_keys_def)
    qed
    from inv xo have "\<forall>k\<in>set vs. map_of (cache s) k \<noteq> None"
      by (simp add: store_invariant_def)
    with dis have c: "\<forall>k\<in>set vs. map_of (cache s') k \<noteq> None"
      by (auto simp: ca)
    have "set vs \<inter> set vs' = {}" if "d' \<noteq> x" "map_of (docmap s') d' = Some vs'" for d' vs'
    proof -
      from that have "map_of (docmap s) d' = Some vs'" by (auto simp: dm split: if_splits)
      with inv xo that(1) show ?thesis unfolding store_invariant_def by blast
    qed
    with c show ?thesis by blast
  qed
  with di show ?thesis
    unfolding s'_def [symmetric] store_invariant_def by blast
qed

lemma get_keeps_maps:
  assumes "get GLUE_PREFIX key view replace s = Inr (r, s')"
  shows "cache s' = cache s \<and> docmap s' = docmap s"
  using assms
  by (auto simp: get_def deepcopy_def Let_def split: if_splits option.splits)

lemma reachable_invariant:
  assumes "avoids_existing find_all_keys" and "reachable find_all_keys GLUE_PREFIX s"
  shows "store_invariant s"
  using assms(2)
proof (induction rule: reachable.induct)
  case (initial objs n)
  show ?case by (rule invariant_initial)
next
  case (added s ntbk docname)
  from assms(1) have "fst ` set (find_all_keys ntbk (existing_keys s) docname)
      \<inter> fst ` set (existing_keys s) = {}"
    unfolding avoids_existing_def by blast
  with added.IH show ?case by (rule invariant_add)
next
  case (cleared s docname)
  then show ?case by (simp add: invariant_clear)
next
  case (looked_up s key view replace r s')
  from get_keeps_maps [OF looked_up.hyps(2)] looked_up.IH show ?case
    by (simp add: store_invariant_def)
qed

lemma sample_state_eq:
  "sample_state =
     \<lparr>cache = [(''x'', 0), (''y'', 2)], docmap = [(''docA'', [''x'']), (''docB'', [''y''])],
      objects = sample_objects, next_ref = 3\<rparr>"
  by (simp add: sample_state_def add_notebook_def initial_data_def existing_keys_def
      dict_update_def sample_find_all_keys_def)

lemma sample_find_all_keys_avoids: "avoids_existing sample_find_all_keys"
proof -
  have "k \<notin> fst ` set existing"
    if "k \<in> fst ` set (filter (\<lambda>(key, a). map_of existing key = None) ntbk)"
    for k :: string and ntbk :: "nat dict" and existing :: "string dict"
    using that by (force simp: map_of_eq_None_iff)
  then show ?thesis
    unfolding avoids_existing_def sample_find_all_keys_def by blast
qed

lemma sample_state_reachable: "reachable sample_find_all_keys GLUE_PREFIX sample_state"
  unfolding sample_state_def by (intro reachable.added reachable.initial)

text \<open>
  C4. In every store the domain can be in, with a key extraction that avoids the existing
  keys, \<open>clear_doc d\<close> removes from the cache exactly the keys that the docmap attributes to
  \<open>d\<close> and removes \<open>d\<close> from the docmap; the docmap entry of every other document, the cache
  entry of every key that another document owns and the stored outputs are unchanged; when
  \<open>d\<close> is not in the docmap, the whole state is unchanged.
\<close>

theorem clear_doc_removes_owned_keys:
  assumes "avoids_existing find_all_keys" and "reachable find_all_keys GLUE_PREFIX s"
  shows "(\<forall>k. map_of (cache (clear_doc d s)) k
            = (if k \<in> set (owned_keys s d) then None else map_of (cache s) k)) \<and>
         map_of (docmap (clear_doc d s)) d = None \<and>
         (\<forall>d'. d' \<noteq> d \<longrightarrow>
            map_of (docmap (clear_doc d s)) d' = map_of (docmap s) d' \<and>
            (\<forall>k\<in>set (owned_keys s d'). map_of (cache (clear_doc d s)) k = map_of (cache s) k)) \<and>
         objects (clear_doc d s) = objects s \<and> next_ref (clear_doc d s) = next_ref s \<and>
         (map_of (docmap s) d = None \<longrightarrow> clear_doc d s = s)"
proof -
  have inv: "store_invariant s"
    using assms by (rule reachable_invariant)
  have c: "map_of (cache (clear_doc d s)) k
      = (if k \<in> set (owned_keys s d) then None else map_of (cache s) k)" for k
    by (simp add: clear_doc_def owned_keys_def Let_def map_of_fold_delete)
  have m: "map_of (docmap (clear_doc d s)) d' = (if d' = d then None else map_of (docmap s) d')"
    for d'
    by (simp add: clear_doc_def Let_def AList.delete_conv')
  have o: "objects (clear_doc d s) = objects s \<and> next_ref (clear_doc d s) = next_ref s"
    by (simp add: clear_doc_def Let_def)
  have n: "clear_doc d s = s" if "map_of (docmap s) d = None"
  proof -
    from that have "d \<notin> fst ` set (docmap s)" by (simp add: map_of_eq_None_iff)
    then have "AList.delete d (docmap s) = docmap s" by simp
    with that show ?thesis by (simp add: clear_doc_def)
  qed
  have other: "map_of (cache (clear_doc d s)) k = map_of (cache s) k"
    if "d' \<noteq> d" "k \<in> set (owned_keys s d')" for d' k
  proof -
    have "k \<notin> set (owned_keys s d)"
    proof
      assume kd: "k \<in> set (owned_keys s d)"
      from owned_keysD [OF kd] obtain ws where ws: "map_of (docmap s) d = Some ws" "k \<in> set ws"
        by blast
      from owned_keysD [OF that(2)] obtain vs where vs: "map_of (docmap s) d' = Some vs" "k \<in> set vs"
        by blast
      from inv vs(1) ws(1) that(1) have "set vs \<inter> set ws = {}"
        unfolding store_invariant_def by blast
      with vs(2) ws(2) show False by auto
    qed
    then show ?thesis by (simp add: c)
  qed
  from c m o n other show ?thesis by auto
qed

theorem clear_doc_removes_owned_keys_witness:
  "avoids_existing sample_find_all_keys \<and>
   reachable sample_find_all_keys ''application/papermill.record/'' sample_state \<and>
   owned_keys sample_state ''docA'' = [''x''] \<and> owned_keys sample_state ''docB'' = [''y''] \<and>
   map_of (cache (clear_doc ''docA'' sample_state)) ''x'' = None \<and>
   map_of (cache (clear_doc ''docA'' sample_state)) ''y'' = Some 2 \<and>
   map_of (docmap (clear_doc ''docA'' sample_state)) ''docA'' = None \<and>
   map_of (docmap (clear_doc ''docA'' sample_state)) ''docB'' = Some [''y''] \<and>
   map_of (docmap sample_state) ''docC'' = None \<and>
   clear_doc ''docC'' sample_state = sample_state"
proof -
  note a = sample_find_all_keys_avoids
  note r = sample_state_reachable [of "''application/papermill.record/''"]
  have o: "owned_keys sample_state ''docA'' = [''x'']" "owned_keys sample_state ''docB'' = [''y'']"
    by (simp_all add: sample_state_eq owned_keys_def)
  have e: "map_of (cache sample_state) ''y'' = Some 2" "map_of (docmap sample_state) ''docB'' = Some [''y'']"
    "map_of (docmap sample_state) ''docC'' = None"
    by (simp_all add: sample_state_eq)
  from clear_doc_removes_owned_keys [OF a r, of "''docA''"]
       clear_doc_removes_owned_keys [OF a r, of "''docC''"] a r o e
  show ?thesis by simp
qed

text \<open>
  C5. For every store, list of docnames and other data, \<open>merge_domaindata\<close> raises
  \<open>NotImplementedError\<close>; it never returns, so no store is produced.
\<close>

theorem merge_domaindata_always_fails:
  "(\<exists>msg. merge_domaindata cls docnames otherdata s = Inl (NotImplementedError msg)) \<and>
   (\<forall>s'. merge_domaindata cls docnames otherdata s \<noteq> Inr s')"
  by (simp add: merge_domaindata_def)



text \<open>
  C8. After two calls of \<open>add_notebook\<close> for the same document, the docmap entry of the
  document is the key set of the second extraction alone.
\<close>

theorem add_notebook_twice_latest_keys:
  "\<exists>ks. map_of (docmap (add_notebook find_all_keys n2 d (add_notebook find_all_keys n1 d s))) d
          = Some ks \<and>
        distinct ks \<and>
        set ks = fst ` set (find_all_keys n2 (existing_keys (add_notebook find_all_keys n1 d s)) d)"
  by (simp add: add_notebook_def Let_def AList.update_conv')

text \<open>
  C10. For a key of the cache whose output has a \<open>"data"\<close> entry,
  \<open>get(key, view=False, replace=True)\<close> returns the stored object itself and replaces its
  \<open>"data"\<close> by the prefix-stripped mapping; cache and docmap are as before. Every later
  lookup of the key, with or without copy, returns the stripped output, and so does the
  snapshot for every document that lists the key.
\<close>

theorem get_without_view_mutates_store:
  assumes "map_of (cache s) key = Some a" and "data (objects s a) = Some d"
  shows "\<exists>s'. get GLUE_PREFIX key False True s = Inr (Some a, s') \<and>
           cache s' = cache s \<and> docmap s' = docmap s \<and>
           objects s' a = (objects s a)\<lparr>data := Some (strip_prefix_keys GLUE_PREFIX d)\<rparr> \<and>
           (\<forall>view. \<exists>b s''. get GLUE_PREFIX key view False s' = Inr (Some b, s'') \<and>
                objects s'' b = (objects s a)\<lparr>data := Some (strip_prefix_keys GLUE_PREFIX d)\<rparr>) \<and>
           (\<forall>doc vs. (doc, vs) \<in> set (docmap s') \<and> key \<in> set vs \<longrightarrow>
                (\<exists>m. (doc, m) \<in> set (snd (write_cache doctreedir path s')) \<and>
                     (key, (objects s a)\<lparr>data := Some (strip_prefix_keys GLUE_PREFIX d)\<rparr>) \<in> set m))"
proof -
  let ?o = "(objects s a)\<lparr>data := Some (strip_prefix_keys GLUE_PREFIX d)\<rparr>"
  let ?s = "s\<lparr>objects := (objects s)(a := ?o)\<rparr>"
  have g: "get GLUE_PREFIX key False True s = Inr (Some a, ?s)"
    using assms by (simp add: get_def)
  have l: "\<exists>b s''. get GLUE_PREFIX key view False ?s = Inr (Some b, s'') \<and> objects s'' b = ?o"
    for view
    using assms(1) by (cases view) (simp_all add: get_def deepcopy_def)
  have w: "\<exists>m. (doc, m) \<in> set (snd (write_cache doctreedir path ?s)) \<and> (key, ?o) \<in> set m"
    if "(doc, vs) \<in> set (docmap ?s)" "key \<in> set vs" for doc vs
  proof -
    from that have "vs \<noteq> []" by auto
    with that(1) have "(doc, snapshot_keys ?s vs) \<in> set (snd (write_cache doctreedir path ?s))"
      by (force simp: write_cache_def snapshot_def)
    moreover have "(key, ?o) \<in> set (snapshot_keys ?s vs)"
      using that(2) assms(1) by (simp add: snapshot_keys_mem)
    ultimately show ?thesis by blast
  qed
  have l': "\<forall>view. \<exists>b s''. get GLUE_PREFIX key view False ?s = Inr (Some b, s'') \<and>
      objects s'' b = ?o"
    using l by blast
  have w': "\<forall>doc vs. (doc, vs) \<in> set (docmap ?s) \<and> key \<in> set vs \<longrightarrow>
      (\<exists>m. (doc, m) \<in> set (snd (write_cache doctreedir path ?s)) \<and> (key, ?o) \<in> set m)"
    using w by blast
  have f: "cache ?s = cache s \<and> docmap ?s = docmap s \<and> objects ?s a = ?o"
    by simp
  from g f l' w' show ?thesis by blast
qed

theorem get_without_view_mutates_store_witness:
  "map_of (cache sample_state) ''x'' = Some 0 \<and>
   data (objects sample_state 0) = Some [(''application/papermill.record/text/plain'', ''1'')] \<and>
   (\<exists>s'. get ''application/papermill.record/'' ''x'' False True sample_state = Inr (Some 0, s') \<and>
         objects s' 0 = \<lparr>data = Some [(''text/plain'', ''1'')], metadata = []\<rparr> \<and>
         (''docA'', [(''x'', \<lparr>data = Some [(''text/plain'', ''1'')], metadata = []\<rparr>)])
           \<in> set (snd (write_cache ''_build/.doctrees'' None s')))"
proof -
  have h1: "map_of (cache sample_state) ''x'' = Some 0"
    by (simp add: sample_state_eq)
  have h2: "data (objects sample_state 0)
      = Some [(''application/papermill.record/text/plain'', ''1'')]"
    by (simp add: sample_state_eq sample_objects_def)
  have st: "strip_prefix_keys ''application/papermill.record/''
      [(''application/papermill.record/text/plain'', ''1'')] = [(''text/plain'', ''1'')]"
    by (simp add: strip_prefix_keys_def)
  from get_without_view_mutates_store [OF h1 h2, of "''application/papermill.record/''"]
  obtain s' where
    g: "get ''application/papermill.record/'' ''x'' False True sample_state = Inr (Some 0, s')"
    and c: "cache s' = cache sample_state" and dm: "docmap s' = docmap sample_state"
    and o: "objects s' 0 = (objects sample_state 0)
        \<lparr>data := Some (strip_prefix_keys ''application/papermill.record/''
           [(''application/papermill.record/text/plain'', ''1'')])\<rparr>"
    by blast
  have o': "objects s' 0 = \<lparr>data = Some [(''text/plain'', ''1'')], metadata = []\<rparr>"
    using o by (simp add: st sample_state_eq sample_objects_def)
  have "snd (write_cache ''_build/.doctrees'' None s')
      = [(''docA'', [(''x'', objects s' 0)]), (''docB'', [(''y'', objects s' 2)])]"
    using c dm
    by (simp add: write_cache_def snapshot_def snapshot_keys_def List.map_filter_simps
        sample_state_eq)
  with h1 h2 g o' show ?thesis by auto
qed


section \<open>Properties of the execution cache: staging\<close>

lemma no_stage_no_pk: "\<not> list_ex is_stage cs \<Longrightarrow> concat (map returned_pk cs) = []"
  by (induction cs) (auto elim: is_stage.elims)

lemma batch_of_append_stage:
  "batch_of (cs @ [StageNotebookFile p r]) =
     Some ((case batch_of cs of None \<Rightarrow> [] | Some l \<Rightarrow> l) @ (case r of Inl e \<Rightarrow> [] | Inr k \<Rightarrow> [k]))"
  by (auto simp: batch_of_def no_stage_no_pk split: sum.splits)

lemma batch_of_append_other:
  "\<not> is_stage c \<Longrightarrow> batch_of (cs @ [c]) = batch_of cs"
  by (cases c) (auto simp: batch_of_def)

lemma stage_one_cached:
  assumes "stage_one eng env cfg nb st = (None, st1)"
    and "True \<notin> set (exclude_file cfg nb)"
    and "\<not> jupyter_notebook_force_run cfg"
    and "read_notebook env (doc2path env nb) = Some ntbk" and "has_outputs ntbk"
  shows "calls st1 = calls st @ [CacheNotebookFile (doc2path env nb) True]"
  using assms
  by (auto simp: stage_one_def Let_def split: if_splits option.splits prod.splits sum.splits)

lemma stage_one_inv:
  assumes "stage_one eng env cfg nb st = (err, st1)"
    and "pk_list st = batch_of (calls st)"
  shows "pk_list st1 = batch_of (calls st1) \<and>
         (calls st1 = calls st \<or> (\<exists>c. calls st1 = calls st @ [c] \<and> decided env cfg nb c))"
proof (cases "True \<in> set (exclude_file cfg nb)")
  case True
  with assms show ?thesis by (simp add: stage_one_def)
next
  case ex: False
  show ?thesis
  proof (cases "read_notebook env (doc2path env nb)")
    case None
    with ex assms show ?thesis by (simp add: stage_one_def)
  next
    case (Some ntbk)
    show ?thesis
    proof (cases "jupyter_notebook_force_run cfg \<or> \<not> has_outputs ntbk")
      case True
      obtain res cb where r: "stage_notebook_file eng (doc2path env nb) (cache_base st) = (res, cb)"
        by (cases "stage_notebook_file eng (doc2path env nb) (cache_base st)")
      have ms: "must_stage env cfg (doc2path env nb)"
        using True Some by (auto simp: must_stage_def)
      have c: "calls st1 = calls st @ [StageNotebookFile (doc2path env nb) res]"
        using assms(1) ex Some True r
        by (auto simp: stage_one_def Let_def split: sum.splits)
      have p: "pk_list st1 = Some ((case pk_list st of None \<Rightarrow> [] | Some l \<Rightarrow> l) @ (case res of Inl e \<Rightarrow> [] | Inr k \<Rightarrow> [k]))"
        using assms(1) ex Some True r
        by (auto simp: stage_one_def Let_def split: sum.splits)
      have "decided env cfg nb (StageNotebookFile (doc2path env nb) res)"
        using ms ex by (simp add: decided_def)
      with c p assms(2) show ?thesis
        by (simp add: batch_of_append_stage)
    next
      case False
      obtain e cb where r: "cache_notebook_file eng (doc2path env nb) True (cache_base st) = (e, cb)"
        by (cases "cache_notebook_file eng (doc2path env nb) True (cache_base st)")
      have ms: "\<not> must_stage env cfg (doc2path env nb)"
        using False Some by (auto simp: must_stage_def)
      have c: "calls st1 = calls st @ [CacheNotebookFile (doc2path env nb) True]"
        using assms(1) ex Some False r
        by (auto simp: stage_one_def Let_def split: option.splits)
      have p: "pk_list st1 = pk_list st"
        using assms(1) ex Some False r
        by (auto simp: stage_one_def Let_def split: option.splits)
      have "decided env cfg nb (CacheNotebookFile (doc2path env nb) True)"
        using ms ex by (simp add: decided_def)
      with c p assms(2) show ?thesis
        by (simp add: batch_of_append_other)
    qed
  qed
qed

lemma stage_loop_inv:
  assumes "stage_loop eng env cfg nbs st = (err, st1)"
    and "pk_list st = batch_of (calls st)"
  shows "pk_list st1 = batch_of (calls st1) \<and>
         (\<exists>cs. calls st1 = calls st @ cs \<and> (\<forall>c\<in>set cs. \<exists>nb\<in>set nbs. decided env cfg nb c))"
  using assms
proof (induction nbs arbitrary: st)
  case Nil
  then show ?case by simp
next
  case (Cons nb nbs)
  obtain e st2 where one: "stage_one eng env cfg nb st = (e, st2)"
    by (cases "stage_one eng env cfg nb st")
  from stage_one_inv [OF one Cons.prems(2)]
  have pk2: "pk_list st2 = batch_of (calls st2)"
    and "calls st2 = calls st \<or> (\<exists>c. calls st2 = calls st @ [c] \<and> decided env cfg nb c)"
    by blast+
  then obtain cs2 where cs2: "calls st2 = calls st @ cs2" "\<forall>c\<in>set cs2. decided env cfg nb c"
    by (metis append_Nil2 empty_iff empty_set set_ConsD)
  show ?case
  proof (cases e)
    case None
    with one Cons.prems(1) have "stage_loop eng env cfg nbs st2 = (err, st1)" by simp
    from Cons.IH [OF this pk2] obtain cs where
      "pk_list st1 = batch_of (calls st1)" "calls st1 = calls st2 @ cs"
      "\<forall>c\<in>set cs. \<exists>nb\<in>set nbs. decided env cfg nb c"
      by blast
    with cs2 show ?thesis
      by (intro conjI exI [of _ "cs2 @ cs"]) auto
  next
    case (Some x)
    with one Cons.prems(1) have "st1 = st2" by simp
    with pk2 cs2 show ?thesis
      by (intro conjI exI [of _ cs2]) auto
  qed
qed

lemma stage_loop_cached:
  assumes "stage_loop eng env cfg nbs st = (None, st1)"
    and "nb \<in> set nbs"
    and "True \<notin> set (exclude_file cfg nb)"
    and "\<not> jupyter_notebook_force_run cfg"
    and "read_notebook env (doc2path env nb) = Some ntbk" and "has_outputs ntbk"
    and "pk_list st = batch_of (calls st)"
  shows "CacheNotebookFile (doc2path env nb) True \<in> set (calls st1)"
  using assms(1,2,7)
proof (induction nbs arbitrary: st)
  case Nil
  then show ?case by simp
next
  case (Cons x nbs)
  obtain e st2 where one: "stage_one eng env cfg x st = (e, st2)"
    by (cases "stage_one eng env cfg x st")
  with Cons.prems(1) have e: "e = None" and rest: "stage_loop eng env cfg nbs st2 = (None, st1)"
    by (auto split: option.splits)
  from stage_one_inv [OF one Cons.prems(3)] have pk2: "pk_list st2 = batch_of (calls st2)"
    by blast
  show ?case
  proof (cases "x = nb")
    case True
    with one e have "calls st2 = calls st @ [CacheNotebookFile (doc2path env nb) True]"
      using stage_one_cached assms(3-6) by blast
    moreover have "set (calls st2) \<subseteq> set (calls st1)"
      using stage_loop_inv [OF rest pk2] by auto
    ultimately show ?thesis by auto
  next
    case False
    with Cons.prems(2) have "nb \<in> set nbs" by simp
    from Cons.IH [OF rest this pk2] show ?thesis .
  qed
qed

lemma execute_staged_nb_calls:
  assumes "execute_staged_nb eng st = (res, st1)"
  shows "pk_list st1 = pk_list st \<and>
         (calls st1 = calls st \<or> calls st1 = calls st @ [RunAndCache (or_None (pk_list st))]) \<and>
         (load_executor eng (cache_base st) = None \<longrightarrow> calls st1 = calls st @ [RunAndCache (or_None (pk_list st))])"
  using assms
  by (auto simp: execute_staged_nb_def Let_def split: option.splits prod.splits sum.splits)


lemma stage_and_execute_unfold:
  assumes "path_cache"
    and "stage_and_execute eng env cfg nb_list path_cache cb lg = (err, st)"
  shows "\<exists>st1 e st2. pk_list st1 = None \<and> calls st1 = [] \<and>
           stage_loop eng env cfg nb_list st1 = (e, st2) \<and>
           (case e of
              Some x \<Rightarrow> err = Some x \<and> st = st2
            | None \<Rightarrow> (\<exists>res. execute_staged_nb eng st2 = (res, st) \<and>
                        (err = None \<longleftrightarrow> (\<exists>r. res = Inr r))))"
proof -
  define st1 where "st1 = (if jupyter_cache_importable env
      then \<lparr>pk_list = None, cache_base = cb, calls = [], log = lg\<rparr>
      else \<lparr>pk_list = None, cache_base = cb, calls = [],
            log = lg @ [LogError ''Using caching functionality requires that jupyter_cache is uninstalled. Install it first.'']\<rparr>)"
  obtain e st2 where loop: "stage_loop eng env cfg nb_list st1 = (e, st2)"
    by (cases "stage_loop eng env cfg nb_list st1")
  have i: "pk_list st1 = None \<and> calls st1 = []" by (simp add: st1_def)
  show ?thesis
  proof (cases e)
    case (Some x)
    with loop assms have "err = Some x \<and> st = st2"
      by (auto simp: stage_and_execute_def st1_def Let_def split: if_splits)
    with i loop Some show ?thesis by (intro exI [of _ st1] exI [of _ e] exI [of _ st2]) simp
  next
    case None
    obtain res st3 where ex: "execute_staged_nb eng st2 = (res, st3)"
      by (cases "execute_staged_nb eng st2")
    from None loop ex assms have "st = st3 \<and> (err = None \<longleftrightarrow> (\<exists>r. res = Inr r))"
      by (auto simp: stage_and_execute_def st1_def Let_def split: if_splits sum.splits)
    with i loop None ex show ?thesis by (intro exI [of _ st1] exI [of _ e] exI [of _ st2]) auto
  qed
qed

lemma batch_of_no_stage: "\<forall>c\<in>set cs. \<not> is_stage c \<Longrightarrow> batch_of cs = None"
  by (simp add: batch_of_def list_ex_iff)

text \<open>
  C2, as amended. When a pass stages no document (every document is excluded or is not to
  be staged), \<open>pk_list\<close> stays \<open>None\<close>; the execution step is still invoked and, when the
  executor loads, the only run it asks of the engine has the filter \<open>None\<close>, after the
  direct caching calls. An explicitly empty list is turned into \<open>None\<close> as well. With the
  filter \<open>None\<close> the engine runs every staged record.
\<close>

theorem nothing_staged_runs_unfiltered:
  assumes "path_cache"
    and "\<forall>nb\<in>set nb_list. True \<in> set (exclude_file cfg nb) \<or> \<not> must_stage env cfg (doc2path env nb)"
    and "\<forall>c. load_executor eng c = None"
    and "stage_and_execute eng env cfg nb_list path_cache cb lg = (err, st)"
  shows "pk_list st = None \<and>
         (\<forall>f. RunAndCache f \<in> set (calls st) \<longrightarrow> f = None) \<and>
         (err = None \<longrightarrow>
            (\<exists>cs. calls st = cs @ [RunAndCache None] \<and>
                  (\<forall>c\<in>set cs. \<exists>p. c = CacheNotebookFile p True))) \<and>
         or_None (Some []) = None"
proof -
  from stage_and_execute_unfold [OF assms(1,4)] obtain st1 e st2 where
    i: "pk_list st1 = None" "calls st1 = []"
    and loop: "stage_loop eng env cfg nb_list st1 = (e, st2)"
    and fin: "case e of Some x \<Rightarrow> err = Some x \<and> st = st2
              | None \<Rightarrow> (\<exists>res. execute_staged_nb eng st2 = (res, st) \<and> (err = None \<longleftrightarrow> (\<exists>r. res = Inr r)))"
    by blast
  have i1: "pk_list st1 = batch_of (calls st1)"
    using i by (simp add: batch_of_def)
  from stage_loop_inv [OF loop i1] i(2) have pk2: "pk_list st2 = batch_of (calls st2)"
    and dec: "\<forall>c\<in>set (calls st2). \<exists>nb\<in>set nb_list. decided env cfg nb c"
    by auto
  have cached: "\<exists>p. c = CacheNotebookFile p True" if "c \<in> set (calls st2)" for c
  proof -
    from dec that obtain nb where "nb \<in> set nb_list" "decided env cfg nb c" by blast
    with assms(2) show ?thesis by (auto simp: decided_def split: if_splits)
  qed
  then have "\<forall>c\<in>set (calls st2). \<not> is_stage c" by fastforce
  with pk2 have none2: "pk_list st2 = None" by (simp add: batch_of_no_stage)
  have o: "or_None (Some []) = None" by (simp add: or_None_def)
  show ?thesis
  proof (cases e)
    case (Some x)
    with fin have "err = Some x" "st = st2" by simp_all
    with none2 cached o show ?thesis by auto
  next
    case None
    with fin obtain res where ex: "execute_staged_nb eng st2 = (res, st)" by auto
    from execute_staged_nb_calls [OF ex] assms(3) none2
    have "pk_list st = None" "calls st = calls st2 @ [RunAndCache None]"
      by (simp_all add: or_None_def)
    with cached o show ?thesis by auto
  qed
qed

theorem nothing_staged_runs_unfiltered_witness:
  "stage_and_execute sample_engine sample_env sample_config [''index'', ''done''] True old_cache []
     = (None, \<lparr>pk_list = None,
               cache_base = \<lparr>staged = [(''/src/old.ipynb'', 7)],
                             cached = [''/src/done.ipynb''], executed = [7]\<rparr>,
               calls = [CacheNotebookFile ''/src/done.ipynb'' True, RunAndCache None],
               log = [LogError ''Will not run notebook with pre-populated outputs or no output cells, will directly cache: /src/done.ipynb'']\<rparr>)"
proof -
  have ev: "stage_and_execute sample_engine sample_env sample_config [''index'', ''done''] True old_cache []
     = (None, \<lparr>pk_list = None,
               cache_base = \<lparr>staged = [(''/src/old.ipynb'', 7)],
                             cached = [''/src/done.ipynb''], executed = [7]\<rparr>,
               calls = [CacheNotebookFile ''/src/done.ipynb'' True, RunAndCache None],
               log = [LogError ''Will not run notebook with pre-populated outputs or no output cells, will directly cache: /src/done.ipynb'']\<rparr>)"
    by (simp add: stage_and_execute_def stage_one_def execute_staged_nb_def or_None_def
        sample_engine_def sample_env_def sample_config_def old_cache_def exclude_file_def
        has_outputs_def Let_def)
  have h2: "\<forall>nb\<in>set [''index'', ''done'']. True \<in> set (exclude_file sample_config nb) \<or>
              \<not> must_stage sample_env sample_config (doc2path sample_env nb)"
    by (simp add: exclude_file_def sample_config_def must_stage_def sample_env_def has_outputs_def)
  have h3: "\<forall>c. load_executor sample_engine c = None" by (simp add: sample_engine_def)
  from nothing_staged_runs_unfiltered [OF TrueI h2 h3 ev] ev show ?thesis by simp
qed

text \<open>
  The claim C2 as it is stated fails: with a stage record left by an earlier pass, a pass
  over no documents makes the engine execute that record, and so does the execution step
  called with an empty list.
\<close>

theorem empty_batch_counterexample:
  "pk_list (snd (stage_and_execute sample_engine sample_env sample_config [] True old_cache [])) = None \<and>
   staged old_cache = [(''/src/old.ipynb'', 7)] \<and> executed old_cache = [] \<and>
   executed (cache_base (snd (stage_and_execute sample_engine sample_env sample_config [] True old_cache []))) = [7] \<and>
   fst (execute_staged_nb sample_engine \<lparr>pk_list = Some [], cache_base = old_cache, calls = [], log = []\<rparr>)
     = Inr (ReturnResult [7])"
  by (simp add: stage_and_execute_def execute_staged_nb_def or_None_def
        sample_engine_def old_cache_def Let_def)


text \<open>
  C3. With caching enabled, a document that is not excluded, read with every code cell
  carrying an output, while no run is forced, is never the subject of a staging call; the
  staged batch \<open>pk_list\<close> consists of the keys returned by the staging calls, so it holds no
  key for the document. When the pass completes, the engine was asked to cache the file
  of the document directly, with \<open>overwrite=True\<close>.
\<close>

theorem direct_cache_when_outputs_present:
  assumes "path_cache"
    and "nb \<in> set nb_list"
    and "True \<notin> set (exclude_file cfg nb)"
    and "\<not> jupyter_notebook_force_run cfg"
    and "read_notebook env (doc2path env nb) = Some ntbk"
    and "has_outputs ntbk"
    and "stage_and_execute eng env cfg nb_list path_cache cb lg = (err, st)"
  shows "(\<forall>r. StageNotebookFile (doc2path env nb) r \<notin> set (calls st)) \<and>
         pk_list st = batch_of (calls st) \<and>
         (err = None \<longrightarrow> CacheNotebookFile (doc2path env nb) True \<in> set (calls st))"
proof -
  from stage_and_execute_unfold [OF assms(1,7)] obtain st1 e st2 where
    i: "pk_list st1 = None" "calls st1 = []"
    and loop: "stage_loop eng env cfg nb_list st1 = (e, st2)"
    and fin: "case e of Some x \<Rightarrow> err = Some x \<and> st = st2
              | None \<Rightarrow> (\<exists>res. execute_staged_nb eng st2 = (res, st) \<and> (err = None \<longleftrightarrow> (\<exists>r. res = Inr r)))"
    by blast
  have i1: "pk_list st1 = batch_of (calls st1)"
    using i by (simp add: batch_of_def)
  from stage_loop_inv [OF loop i1] i(2) have pk2: "pk_list st2 = batch_of (calls st2)"
    and dec: "\<forall>c\<in>set (calls st2). \<exists>nb\<in>set nb_list. decided env cfg nb c"
    by auto
  have nm: "\<not> must_stage env cfg (doc2path env nb)"
    using assms(4,5,6) by (simp add: must_stage_def)
  have ns: "StageNotebookFile (doc2path env nb) r \<notin> set (calls st2)" for r
  proof
    assume "StageNotebookFile (doc2path env nb) r \<in> set (calls st2)"
    with dec obtain nb' where "decided env cfg nb' (StageNotebookFile (doc2path env nb) r)" by blast
    with nm show False by (auto simp: decided_def split: if_splits)
  qed
  show ?thesis
  proof (cases e)
    case (Some x)
    with fin have "err = Some x" "st = st2" by simp_all
    with ns pk2 show ?thesis by auto
  next
    case None
    with fin obtain res where ex: "execute_staged_nb eng st2 = (res, st)" by auto
    have c: "CacheNotebookFile (doc2path env nb) True \<in> set (calls st2)"
      using stage_loop_cached [OF _ assms(2,3,4,5,6) i1] loop None by simp
    from execute_staged_nb_calls [OF ex] ns pk2 c show ?thesis
      by (auto simp: batch_of_append_other)
  qed
qed

theorem direct_cache_when_outputs_present_witness:
  "stage_and_execute sample_engine sample_env sample_config [''index'', ''todo'', ''done''] True old_cache []
     = (None, \<lparr>pk_list = Some [8],
               cache_base = \<lparr>staged = [(''/src/old.ipynb'', 7), (''/src/todo.ipynb'', 8)],
                             cached = [''/src/done.ipynb''], executed = [8]\<rparr>,
               calls = [StageNotebookFile ''/src/todo.ipynb'' (Inr 8),
                        CacheNotebookFile ''/src/done.ipynb'' True,
                        RunAndCache (Some [8])],
               log = [LogError ''Will not run notebook with pre-populated outputs or no output cells, will directly cache: /src/done.ipynb'']\<rparr>) \<and>
   batch_of [StageNotebookFile ''/src/todo.ipynb'' (Inr 8),
             CacheNotebookFile ''/src/done.ipynb'' True,
             RunAndCache (Some [8])] = Some [8]"
proof -
  have ev: "stage_and_execute sample_engine sample_env sample_config [''index'', ''todo'', ''done''] True old_cache []
     = (None, \<lparr>pk_list = Some [8],
               cache_base = \<lparr>staged = [(''/src/old.ipynb'', 7), (''/src/todo.ipynb'', 8)],
                             cached = [''/src/done.ipynb''], executed = [8]\<rparr>,
               calls = [StageNotebookFile ''/src/todo.ipynb'' (Inr 8),
                        CacheNotebookFile ''/src/done.ipynb'' True,
                        RunAndCache (Some [8])],
               log = [LogError ''Will not run notebook with pre-populated outputs or no output cells, will directly cache: /src/done.ipynb'']\<rparr>)"
    by (simp add: stage_and_execute_def stage_one_def execute_staged_nb_def or_None_def
        sample_engine_def sample_env_def sample_config_def old_cache_def exclude_file_def
        has_outputs_def Let_def)
  have h2: "''done'' \<in> set [''index'', ''todo'', ''done'']" by simp
  have h3: "True \<notin> set (exclude_file sample_config ''done'')"
    by (simp add: exclude_file_def sample_config_def)
  have h4: "\<not> jupyter_notebook_force_run sample_config" by (simp add: sample_config_def)
  have h5: "read_notebook sample_env (doc2path sample_env ''done'')
      = Some [\<lparr>cell_type = ''markdown'', outputs = []\<rparr>,
              \<lparr>cell_type = ''code'', outputs = [\<lparr>data = Some [(''text/plain'', ''1'')], metadata = []\<rparr>]\<rparr>]"
    by (simp add: sample_env_def)
  have h6: "has_outputs [\<lparr>cell_type = ''markdown'', outputs = []\<rparr>,
              \<lparr>cell_type = ''code'', outputs = [\<lparr>data = Some [(''text/plain'', ''1'')], metadata = []\<rparr>]\<rparr>]"
    by (simp add: has_outputs_def)
  from direct_cache_when_outputs_present [OF TrueI h2 h3 h4 h5 h6 ev] ev show ?thesis
    by simp
qed

section \<open>Properties of the execution cache: merging outputs\<close>

lemma latest_loop_Some:
  "latest_loop (Some (t, k)) l = Some (t', k') \<Longrightarrow>
     t' \<le> t \<and> (\<forall>r\<in>set l. t' \<le> created r) \<and>
     ((t', k') = (t, k) \<or> (\<exists>r\<in>set l. created r = t' \<and> pk r = k'))"
proof (induction l arbitrary: t k)
  case Nil
  then show ?case by simp
next
  case (Cons item items)
  show ?case
  proof (cases "t > created item")
    case True
    with Cons.prems have "latest_loop (Some (created item, pk item)) items = Some (t', k')"
      by simp
    from Cons.IH [OF this] True show ?thesis by auto
  next
    case False
    with Cons.prems have "latest_loop (Some (t, k)) items = Some (t', k')"
      by simp
    from Cons.IH [OF this] False show ?thesis by auto
  qed
qed

lemma latest_loop_total: "\<exists>t' k'. latest_loop (Some (t, k)) l = Some (t', k')"
  by (induction l arbitrary: t k) auto

lemma latest_loop_selects_earliest:
  assumes "cache_list \<noteq> []"
  shows "\<exists>t k. latest_loop None cache_list = Some (t, k) \<and>
           (\<forall>r\<in>set cache_list. t \<le> created r) \<and>
           (\<exists>r\<in>set cache_list. created r = t \<and> pk r = k)"
proof -
  from assms obtain item items where l: "cache_list = item # items" by (cases cache_list) auto
  from latest_loop_total obtain t k where
    r: "latest_loop (Some (created item, pk item)) items = Some (t, k)" by blast
  from latest_loop_Some [OF r] l r show ?thesis by auto
qed

lemma no_cache_record_find:
  assumes "no_cache_record db file_path"
  shows "\<exists>msgs. find_cache_record db file_path r = (Inr None, msgs)"
  using assms
  by (auto simp: no_cache_record_def find_cache_record_def Let_def
      split: sum.splits option.splits prod.splits)

text \<open>
  C1. The code does not select the most recent record. With two cache records for the
  file, created at times 10 (key 1) and 20 (key 2), the selection loop ends with the
  record of time 10, and that record is the one fetched.
\<close>

theorem earliest_record_selected:
  "records_from_uri two_records ''/work/site/a.ipynb''
     = Inr [\<lparr>pk = 1, created = 10\<rparr>, \<lparr>pk = 2, created = 20\<rparr>] \<and>
   latest_loop None [\<lparr>pk = 1, created = 10\<rparr>, \<lparr>pk = 2, created = 20\<rparr>] = Some (10, 1) \<and>
   find_cache_record two_records ''/work/site/a.ipynb'' ''site/a.ipynb''
     = (Inr (Some \<lparr>pk = 1, created = 10\<rparr>), [])"
  by (simp add: two_records_def find_cache_record_def)

text \<open>
  C6. When the cache holds no record for the file and the stage record is missing or has
  no traceback, \<open>add_notebook_outputs\<close> returns the notebook it was given; no exception
  leaves the function and the file system is untouched. Only log records are added.
\<close>

theorem missing_records_return_notebook:
  assumes "no_cache_record db file_path"
    and "get_staged_record db (relative_file_path currentdir file_path) = Inl KeyError \<or>
         (\<exists>sr. get_staged_record db (relative_file_path currentdir file_path) = Inr sr \<and>
               \<not> truthy (traceback sr))"
  shows "\<exists>msgs. add_notebook_outputs db currentdir file_path ntbk path_cache dest_path fs lg
           = (Inr ntbk, fs, lg @ msgs)"
proof (cases path_cache)
  case False
  then have "add_notebook_outputs db currentdir file_path ntbk path_cache dest_path fs lg
      = (Inr ntbk, fs, lg @ [])"
    by (simp add: add_notebook_outputs_def)
  then show ?thesis by blast
next
  case True
  from no_cache_record_find [OF assms(1)] obtain msgs where
    f: "find_cache_record db file_path (relative_file_path currentdir file_path) = (Inr None, msgs)"
    by blast
  from assms(2) True f
  have "add_notebook_outputs db currentdir file_path ntbk path_cache dest_path fs lg
      = (Inr ntbk, fs, lg @ msgs)"
    by (auto simp: add_notebook_outputs_def Let_def)
  then show ?thesis by blast
qed

theorem missing_records_return_notebook_witness:
  "no_cache_record no_records ''/work/site/nb/intro.ipynb'' \<and>
   get_staged_record no_records (relative_file_path ''/work/site'' ''/work/site/nb/intro.ipynb'')
     = Inl KeyError \<and>
   add_notebook_outputs no_records ''/work/site'' ''/work/site/nb/intro.ipynb''
       [\<lparr>cell_type = ''code'', outputs = []\<rparr>] True ''_build'' empty_fs []
     = (Inr [\<lparr>cell_type = ''code'', outputs = []\<rparr>], empty_fs, [])"
proof -
  have h1: "no_cache_record no_records ''/work/site/nb/intro.ipynb''"
    by (simp add: no_cache_record_def no_records_def)
  have h2: "get_staged_record no_records
      (relative_file_path ''/work/site'' ''/work/site/nb/intro.ipynb'') = Inl KeyError"
    by (simp add: no_records_def)
  have ev: "add_notebook_outputs no_records ''/work/site'' ''/work/site/nb/intro.ipynb''
       [\<lparr>cell_type = ''code'', outputs = []\<rparr>] True ''_build'' empty_fs []
     = (Inr [\<lparr>cell_type = ''code'', outputs = []\<rparr>], empty_fs, [])"
    by (simp add: add_notebook_outputs_def find_cache_record_def no_records_def)
  from missing_records_return_notebook [OF h1 disjI1 [OF h2],
      of "[\<lparr>cell_type = ''code'', outputs = []\<rparr>]" True "''_build''" empty_fs "[]"] h1 h2 ev
  show ?thesis by simp
qed

text \<open>
  C9. The code does not write the report. A pass over the document \<open>todo\<close> files its stage
  record under the source path \<open>/src/todo.ipynb\<close>. When that record carries a traceback and
  the cache has no record for the file, \<open>add_notebook_outputs\<close>, run in the directory
  \<open>/src\<close>, looks the stage record up under the relative path \<open>src/todo.ipynb\<close>, finds
  none, and returns the notebook without creating a file or logging a message.
\<close>

theorem traceback_report_not_written:
  "calls (snd (stage_and_execute sample_engine sample_env sample_config [''todo''] True old_cache []))
     = [StageNotebookFile ''/src/todo.ipynb'' (Inr 8), RunAndCache (Some [8])] \<and>
   no_cache_record (staged_failure ''/src/todo.ipynb'' 8) ''/src/todo.ipynb'' \<and>
   get_staged_record (staged_failure ''/src/todo.ipynb'' 8) ''/src/todo.ipynb''
     = Inr \<lparr>stage_pk = 8, traceback = Some ''ZeroDivisionError''\<rparr> \<and>
   relative_file_path ''/src'' ''/src/todo.ipynb'' = ''src/todo.ipynb'' \<and>
   add_notebook_outputs (staged_failure ''/src/todo.ipynb'' 8) ''/src'' ''/src/todo.ipynb''
       [\<lparr>cell_type = ''code'', outputs = []\<rparr>] True ''_build'' empty_fs []
     = (Inr [\<lparr>cell_type = ''code'', outputs = []\<rparr>], empty_fs, [])"
proof -
  have pass: "calls (snd (stage_and_execute sample_engine sample_env sample_config [''todo''] True
      old_cache []))
     = [StageNotebookFile ''/src/todo.ipynb'' (Inr 8), RunAndCache (Some [8])]"
    by (simp add: stage_and_execute_def stage_one_def execute_staged_nb_def or_None_def
        sample_engine_def sample_env_def sample_config_def old_cache_def exclude_file_def
        has_outputs_def Let_def)
  have nc: "no_cache_record (staged_failure ''/src/todo.ipynb'' 8) ''/src/todo.ipynb''"
    by (simp add: no_cache_record_def staged_failure_def)
  have g: "get_staged_record (staged_failure ''/src/todo.ipynb'' 8) ''/src/todo.ipynb''
     = Inr \<lparr>stage_pk = 8, traceback = Some ''ZeroDivisionError''\<rparr>"
    by (simp add: staged_failure_def)
  have rel: "relative_file_path ''/src'' ''/src/todo.ipynb'' = ''src/todo.ipynb''"
    by (simp add: relative_file_path_def rfind_def slice_from_def slice_bound_def)
  have ev: "add_notebook_outputs (staged_failure ''/src/todo.ipynb'' 8) ''/src'' ''/src/todo.ipynb''
       [\<lparr>cell_type = ''code'', outputs = []\<rparr>] True ''_build'' empty_fs []
     = (Inr [\<lparr>cell_type = ''code'', outputs = []\<rparr>], empty_fs, [])"
    by (simp add: add_notebook_outputs_def rel find_cache_record_def staged_failure_def Let_def)
  from pass nc g rel ev show ?thesis by blast
qed


end
